theory Spec2Isabelle
  imports Main
begin

section \<open>Purview collections client: directory, hierarchy and path creation\<close>

text \<open>
  A shallow embedding of the collection logic of
  \<^verbatim>\<open>pyapacheatlas/core/collections/purview.py\<close>: the directory built by
  \<^verbatim>\<open>_get_final_collection_names\<close>, the tree built and printed by
  \<^verbatim>\<open>_hierarchy\<close>, and the two path creators \<^verbatim>\<open>create_collectiions\<close> and
  \<^verbatim>\<open>create_collectiions2\<close>.

  The HTTP listing call is an input (the list of collection records the service
  returned); the HTTP PUT is a parameter of the creators. Console output other than the
  rendered tree is not modelled. Characters are code points below 256.
\<close>

subsection \<open>Python values\<close>

datatype error =
    UnboundLocalError string
  | ValueError string
  | TypeError string
  | RequestException string

text \<open>\<^verbatim>\<open>str.isspace\<close> on the code points below 256.\<close>

definition isspace :: "char \<Rightarrow> bool" where
  "isspace c = ((of_char c :: nat) \<in> {9, 10, 11, 12, 13, 28, 29, 30, 31, 32, 133, 160})"

text \<open>\<^verbatim>\<open>s.strip()\<close>\<close>

definition strip :: "string \<Rightarrow> string" where
  "strip s = rev (dropWhile isspace (rev (dropWhile isspace s)))"

text \<open>\<^verbatim>\<open>s.split(sep)\<close> for a separator of one character\<close>

fun str_split :: "char \<Rightarrow> string \<Rightarrow> string list" where
  "str_split sep [] = [[]]"
| "str_split sep (c # cs) =
     (if c = sep then [] # str_split sep cs
      else (case str_split sep cs of
              [] \<Rightarrow> [[c]]
            | w # ws \<Rightarrow> (c # w) # ws))"

text \<open>\<^verbatim>\<open>' ' in name\<close> and \<^verbatim>\<open>name.replace(" ", "")\<close>\<close>

definition has_space :: "string \<Rightarrow> bool" where
  "has_space s = (CHR '' '' \<in> set s)"

definition remove_spaces :: "string \<Rightarrow> string" where
  "remove_spaces s = filter (\<lambda>c. c \<noteq> CHR '' '') s"

text \<open>
  A Python \<^verbatim>\<open>dict\<close> keeps its keys in the order of their first insertion; an
  assignment to a key that is present replaces the value in place.
\<close>

type_synonym ('k, 'v) dict = "('k \<times> 'v) list"

fun dict_set :: "'k \<Rightarrow> 'v \<Rightarrow> ('k, 'v) dict \<Rightarrow> ('k, 'v) dict" where
  "dict_set k v [] = [(k, v)]"
| "dict_set k v ((k', v') # d) =
     (if k' = k then (k, v) # d else (k', v') # dict_set k v d)"

text \<open>\<^verbatim>\<open>enumerate(xs, start)\<close>\<close>

definition enumerate_from :: "nat \<Rightarrow> 'a list \<Rightarrow> (nat \<times> 'a) list" where
  "enumerate_from start xs = zip [start ..< start + length xs] xs"

subsection \<open>The collection directory\<close>

text \<open>
  One collection of the listing response: the keys \<^verbatim>\<open>name\<close>, \<^verbatim>\<open>friendlyName\<close> and,
  when present, \<^verbatim>\<open>parentCollection.referenceName\<close>.
\<close>

record collection =
  coll_name :: string
  coll_friendlyName :: string
  coll_parentCollection :: "string option"

text \<open>One value of the directory; \<open>None\<close> is Python's \<^verbatim>\<open>None\<close>.\<close>

record entry =
  friendlyName :: string
  index :: nat
  parentCollection :: "string option"

definition get_final_collection_names :: "collection list \<Rightarrow> (string, entry) dict" where
  "get_final_collection_names collection_list =
     foldl (\<lambda>final_collection_list (i, coll).
              dict_set (coll_name coll)
                \<lparr>friendlyName = coll_friendlyName coll, index = i,
                 parentCollection = coll_parentCollection coll\<rparr>
                final_collection_list)
       [] (enumerate_from 0 collection_list)"

subsection \<open>The hierarchy\<close>

text \<open>
  An \<^verbatim>\<open>anytree\<close> node has a name and an ordered sequence of children. A reference to a
  node of the tree under \<^verbatim>\<open>root\<close> is the path of child positions leading to it; nodes are
  never moved or removed, so a path keeps naming the same node.
\<close>

datatype tree = Node string "tree list"

type_synonym path = "nat list"

fun children :: "tree \<Rightarrow> tree list" where
  "children (Node n cs) = cs"

fun node_at :: "tree \<Rightarrow> path \<Rightarrow> tree option" where
  "node_at t [] = Some t"
| "node_at (Node n cs) (i # p) = (if i < length cs then node_at (cs ! i) p else None)"

fun nchildren :: "tree \<Rightarrow> path \<Rightarrow> nat" where
  "nchildren t p = (case node_at t p of None \<Rightarrow> 0 | Some c \<Rightarrow> length (children c))"

text \<open>
  \<^verbatim>\<open>Node(name=n, parent=p)\<close>: the new node becomes the last child of the node at \<open>p\<close>.
\<close>

fun attach :: "path \<Rightarrow> string \<Rightarrow> tree \<Rightarrow> tree" where
  "attach [] n (Node a cs) = Node a (cs @ [Node n []])"
| "attach (i # p) n (Node a cs) =
     (if i < length cs then Node a (cs[i := attach p n (cs ! i)]) else Node a cs)"

text \<open>
  The local variables of \<^verbatim>\<open>_hierarchy\<close>; \<open>None\<close> is a variable not yet bound, and
  reading it raises \<^verbatim>\<open>UnboundLocalError\<close>. \<^verbatim>\<open>root\<close> holds the tree as it stands (every
  node is created below the root node), \<^verbatim>\<open>child\<close> the position of the node it refers to.
\<close>

record locals =
  root :: "tree option"
  root_name :: "string option"
  child :: "path option"

definition hierarchy_step :: "locals \<Rightarrow> nat \<times> string \<times> entry \<Rightarrow> error + locals" where
  "hierarchy_step st x =
     (case x of (i, real_name, v) \<Rightarrow>
        let friendly_name = friendlyName v;
            parent_collection = parentCollection v
        in if i = 0 then
             Inr (st\<lparr>root := Some (Node friendly_name []), root_name := Some real_name\<rparr>)
           else
             (case root_name st of
                None \<Rightarrow> Inl (UnboundLocalError ''root_name'')
              | Some rn \<Rightarrow>
                  if i \<noteq> 0 \<and> parent_collection = Some rn then
                    (case root st of
                       None \<Rightarrow> Inl (UnboundLocalError ''root'')
                     | Some t \<Rightarrow>
                         Inr (st\<lparr>root := Some (attach [] friendly_name t),
                                 child := Some [nchildren t []]\<rparr>))
                  else
                    (case child st of
                       None \<Rightarrow> Inl (UnboundLocalError ''child'')
                     | Some p \<Rightarrow>
                         (case root st of
                            None \<Rightarrow> Inl (UnboundLocalError ''root'')
                          | Some t \<Rightarrow>
                              Inr (st\<lparr>root := Some (attach p friendly_name t),
                                      child := Some (p @ [nchildren t p])\<rparr>)))))"

fun hierarchy_loop :: "locals \<Rightarrow> (nat \<times> string \<times> entry) list \<Rightarrow> error + locals" where
  "hierarchy_loop st [] = Inr st"
| "hierarchy_loop st (x # xs) =
     (case hierarchy_step st x of
        Inl e \<Rightarrow> Inl e
      | Inr st' \<Rightarrow> hierarchy_loop st' xs)"

definition hierarchy_build :: "(string, entry) dict \<Rightarrow> error + locals" where
  "hierarchy_build collection_list =
     hierarchy_loop \<lparr>root = None, root_name = None, child = None\<rparr>
       (enumerate_from 0 collection_list)"

text \<open>\<^verbatim>\<open>RenderTree(node=root, style=AsciiStyle())\<close>: the rows \<open>(pre, name)\<close> in pre-order.\<close>

definition render_item :: "bool list \<Rightarrow> string \<Rightarrow> string \<times> string" where
  "render_item continues n =
     (if continues = [] then ([], n)
      else (concat (map (\<lambda>cont. if cont then ''|   '' else ''    '') (butlast continues))
              @ (if last continues then ''|-- '' else ''+-- ''), n))"

fun render_tree :: "bool list \<Rightarrow> tree \<Rightarrow> (string \<times> string) list"
  and render_children :: "bool list \<Rightarrow> tree list \<Rightarrow> (string \<times> string) list" where
  "render_tree continues (Node n cs) = render_item continues n # render_children continues cs"
| "render_children continues [] = []"
| "render_children continues (c # cs) =
     render_tree (continues @ [cs \<noteq> []]) c @ render_children continues cs"

text \<open>\<^verbatim>\<open>_hierarchy\<close>: the printed lines, or the exception raised.\<close>

definition hierarchy :: "collection list \<Rightarrow> error + string list" where
  "hierarchy listing =
     (case hierarchy_build (get_final_collection_names listing) of
        Inl e \<Rightarrow> Inl e
      | Inr st \<Rightarrow>
          (case root st of
             None \<Rightarrow> Inl (UnboundLocalError ''root'')
           | Some t \<Rightarrow> Inr (map (\<lambda>(pre, n). pre @ n) (render_tree [] t))))"

text \<open>
  \<^verbatim>\<open>list_collections_new\<close>: the listing is the \<^verbatim>\<open>value\<close> of the response; with
  \<^verbatim>\<open>hierarchy\<close> set the method prints the tree and returns \<^verbatim>\<open>None\<close>. The listing
  that \<^verbatim>\<open>_hierarchy\<close> fetches again is taken to be the same.
\<close>

datatype listing_result =
    Printed "string list"
  | Names "string list"
  | Collections "collection list"

definition list_collections_new :: "collection list \<Rightarrow> bool \<Rightarrow> bool \<Rightarrow> error + listing_result" where
  "list_collections_new collection_list hier only_names =
     (if hier then
        (case hierarchy collection_list of Inl e \<Rightarrow> Inl e | Inr ls \<Rightarrow> Inr (Printed ls))
      else if only_names then Inr (Names (map coll_friendlyName collection_list))
      else Inr (Collections collection_list))"

subsection \<open>Path creation\<close>

text \<open>
  A PUT request as the creators build it, and what \<^verbatim>\<open>requests.put\<close> does with it: it
  returns a response, whatever its status code, or raises.
\<close>

record request =
  url :: string
  data :: string

datatype put_result =
    Response nat string
  | Raises string

definition put_url :: "string \<Rightarrow> string \<Rightarrow> string \<Rightarrow> string" where
  "put_url endpoint_url name api_version =
     endpoint_url @ ''account/collections/'' @ name @ ''?api-version='' @ api_version"

definition put_data :: "string \<Rightarrow> string \<Rightarrow> string" where
  "put_data reference_name friendly_name =
     ''{\"parentCollection\": {\"referenceName\": \"'' @ reference_name
       @ ''\"}, \"friendlyName\": \"'' @ friendly_name @ ''\"}''"

definition put_request :: "string \<Rightarrow> string \<Rightarrow> string \<Rightarrow> string \<Rightarrow> string \<Rightarrow> request" where
  "put_request endpoint_url api_version name reference_name friendly_name =
     \<lparr>url = put_url endpoint_url name api_version,
      data = put_data reference_name friendly_name\<rparr>"

text \<open>
  The start collection: the loop compares against the variable it overwrites. The result
  is the final value of \<^verbatim>\<open>collection_to_start_on\<close>, or the \<^verbatim>\<open>ValueError\<close>.
\<close>

definition start_not_found :: "string \<Rightarrow> string" where
  "start_not_found s =
     ''The collection '' @ [CHR 0x27] @ s @ [CHR 0x27]
       @ '' either doesn't exist or you don't have permission to start on it. Would need to be a collection admin on that collection if it exists.''"

definition start_loop :: "(string, entry) dict \<Rightarrow> string \<Rightarrow> string \<times> string list" where
  "start_loop collection_list collection_to_start_on =
     foldl (\<lambda>(start, check) (name, v).
              if start = friendlyName v \<or> start = name then (name, check @ [name])
              else (start, check))
       (strip collection_to_start_on, []) collection_list"

definition resolve_start :: "(string, entry) dict \<Rightarrow> string \<Rightarrow> error + string" where
  "resolve_start collection_list collection_to_start_on =
     (case start_loop collection_list collection_to_start_on of
        (start, check) \<Rightarrow>
          if check = [] then Inl (ValueError (start_not_found start)) else Inr start)"

definition final_names :: "string \<Rightarrow> string list" where
  "final_names name =
     (if CHR ''/'' \<in> set name then map strip (str_split (CHR ''/'') name)
      else [strip name])"

text \<open>The name-resolution step of \<^verbatim>\<open>create_collectiions\<close>.\<close>

definition updated_name :: "(string, entry) dict \<Rightarrow> string \<Rightarrow> string" where
  "updated_name collection_list name =
     foldl (\<lambda>updated (coll, v).
              if name = friendlyName v \<and> name \<noteq> coll \<and> has_space name then friendlyName v
              else if name = friendlyName v \<and> name \<noteq> coll then coll
              else updated)
       name collection_list"

definition updated_final_names :: "(string, entry) dict \<Rightarrow> string list \<Rightarrow> string list" where
  "updated_final_names collection_list names = map (updated_name collection_list) names"

text \<open>
  The request of one segment; \<open>i\<close> counts from 1 as \<^verbatim>\<open>enumerate(..., start=1)\<close> does.
\<close>

definition segment_request ::
  "string \<Rightarrow> string \<Rightarrow> string \<Rightarrow> string list \<Rightarrow> string list \<Rightarrow> nat \<times> string \<Rightarrow> request" where
  "segment_request endpoint_url api_version collection_to_start_on finals updated x =
     (case x of (i, name0) \<Rightarrow>
        let friendly_name = name0;
            name = (if has_space name0 then remove_spaces name0 else name0)
        in if i = 1 then
             put_request endpoint_url api_version name collection_to_start_on (finals ! (i - 1))
           else
             put_request endpoint_url api_version name (updated ! (i - 2)) friendly_name)"

text \<open>
  The requests are issued one after the other; \<open>sent\<close> is the trace of the requests
  issued so far, and the transport answers the \<open>n\<close>-th request of the run. The response is
  printed and not inspected; an exception of the transport ends the run. The requests of
  a path depend on no response, so they are listed first and issued in that order.
\<close>

fun put_all ::
  "(nat \<Rightarrow> request \<Rightarrow> put_result) \<Rightarrow> request list \<Rightarrow> request list \<Rightarrow> request list \<times> (error + unit)" where
  "put_all put [] sent = (sent, Inr ())"
| "put_all put (r # rs) sent =
     (case put (length sent) r of
        Raises e \<Rightarrow> (sent @ [r], Inl (RequestException e))
      | Response status content \<Rightarrow> put_all put rs (sent @ [r]))"

definition path_requests ::
  "string \<Rightarrow> string \<Rightarrow> (string, entry) dict \<Rightarrow> string \<Rightarrow> string \<Rightarrow> request list" where
  "path_requests endpoint_url api_version collection_list collection_to_start_on name =
     (let finals = final_names name;
          updated = updated_final_names collection_list finals
      in map (segment_request endpoint_url api_version collection_to_start_on finals updated)
           (enumerate_from 1 updated))"

fun create_paths ::
  "(nat \<Rightarrow> request \<Rightarrow> put_result) \<Rightarrow> (string \<Rightarrow> request list) \<Rightarrow> string list \<Rightarrow> request list
     \<Rightarrow> request list \<times> (error + unit)" where
  "create_paths put reqs [] sent = (sent, Inr ())"
| "create_paths put reqs (name # names) sent =
     (case put_all put (reqs name) sent of
        (sent', Inl e) \<Rightarrow> (sent', Inl e)
      | (sent', Inr u) \<Rightarrow> create_paths put reqs names sent')"

text \<open>
  \<^verbatim>\<open>create_collectiions\<close>: the requests issued, in order, and the outcome. The listing is
  what \<^verbatim>\<open>_get_final_collection_names\<close> fetched; \<^verbatim>\<open>collection_names\<close> defaults to
  \<^verbatim>\<open>None\<close>.
\<close>

definition not_iterable :: string where
  "not_iterable = [CHR 0x27] @ ''NoneType'' @ [CHR 0x27] @ '' object is not iterable''"

definition create_collectiions ::
  "(nat \<Rightarrow> request \<Rightarrow> put_result) \<Rightarrow> string \<Rightarrow> collection list \<Rightarrow> string \<Rightarrow> string list option
     \<Rightarrow> string \<Rightarrow> request list \<times> (error + unit)" where
  "create_collectiions put endpoint_url listing collection_to_start_on collection_names api_version =
     (let collection_list = get_final_collection_names listing
      in case resolve_start collection_list collection_to_start_on of
           Inl e \<Rightarrow> ([], Inl e)
         | Inr start \<Rightarrow>
             (case collection_names of
                None \<Rightarrow> ([], Inl (TypeError not_iterable))
              | Some names \<Rightarrow>
                  create_paths put
                    (path_requests endpoint_url api_version collection_list start) names []))"

text \<open>
  \<^verbatim>\<open>create_collectiions2\<close>: every segment is run against every directory entry, and each
  branch assigns into \<^verbatim>\<open>collection_dict\<close>.
\<close>

record planned =
  p_friendlyName :: string
  p_parentCollection :: "string option"

definition collect_entry ::
  "string \<Rightarrow> nat \<Rightarrow> string \<Rightarrow> (string, planned) dict \<Rightarrow> string \<times> entry \<Rightarrow> (string, planned) dict" where
  "collect_entry collection_to_start_on i name collection_dict x =
     (case x of (coll, v) \<Rightarrow>
        if i = 0 \<and> has_space name then
          dict_set (remove_spaces name)
            \<lparr>p_friendlyName = name, p_parentCollection = Some collection_to_start_on\<rparr>
            collection_dict
        else if i = 0 then
          dict_set name
            \<lparr>p_friendlyName = name, p_parentCollection = Some collection_to_start_on\<rparr>
            collection_dict
        else if name = friendlyName v \<and> name \<noteq> coll \<and> i > 0 then
          dict_set coll
            \<lparr>p_friendlyName = name, p_parentCollection = parentCollection v\<rparr> collection_dict
        else if name = coll \<and> i > 0 then
          dict_set name
            \<lparr>p_friendlyName = name, p_parentCollection = parentCollection v\<rparr> collection_dict
        else if name \<noteq> friendlyName v \<and> name \<noteq> coll \<and> has_space name \<and> i > 0 then
          dict_set (remove_spaces name)
            \<lparr>p_friendlyName = name, p_parentCollection = None\<rparr> collection_dict
        else
          dict_set name \<lparr>p_friendlyName = name, p_parentCollection = None\<rparr> collection_dict)"

definition collection_dict_of ::
  "(string, entry) dict \<Rightarrow> string \<Rightarrow> string list \<Rightarrow> (string, planned) dict" where
  "collection_dict_of collection_list collection_to_start_on finals =
     foldl (\<lambda>collection_dict (i, name).
              foldl (collect_entry collection_to_start_on i name) collection_dict collection_list)
       [] (enumerate_from 0 finals)"

text \<open>
  \<^verbatim>\<open>collection_updated_list[index - 1]\<close>: at index 0 Python reads the last element.
\<close>

definition really_final_list :: "(string, planned) dict \<Rightarrow> (string \<times> string \<times> string) list" where
  "really_final_list collection_updated_list =
     map (\<lambda>(i, key, v).
            case p_parentCollection v of
              None \<Rightarrow>
                (key, p_friendlyName v,
                 fst (collection_updated_list
                        ! (if i = 0 then length collection_updated_list - 1 else i - 1)))
            | Some parent \<Rightarrow> (key, p_friendlyName v, parent))
       (enumerate_from 0 collection_updated_list)"

definition path_requests2 ::
  "string \<Rightarrow> string \<Rightarrow> (string, entry) dict \<Rightarrow> string \<Rightarrow> string \<Rightarrow> request list" where
  "path_requests2 endpoint_url api_version collection_list collection_to_start_on name =
     map (\<lambda>(key, friendly_name, parent).
            put_request endpoint_url api_version key parent friendly_name)
       (really_final_list
          (collection_dict_of collection_list collection_to_start_on (final_names name)))"

definition create_collectiions2 ::
  "(nat \<Rightarrow> request \<Rightarrow> put_result) \<Rightarrow> string \<Rightarrow> collection list \<Rightarrow> string \<Rightarrow> string list option
     \<Rightarrow> string \<Rightarrow> request list \<times> (error + unit)" where
  "create_collectiions2 put endpoint_url listing collection_to_start_on collection_names api_version =
     (let collection_list = get_final_collection_names listing
      in case resolve_start collection_list collection_to_start_on of
           Inl e \<Rightarrow> ([], Inl e)
         | Inr start \<Rightarrow>
             (case collection_names of
                None \<Rightarrow> ([], Inl (TypeError not_iterable))
              | Some names \<Rightarrow>
                  create_paths put
                    (path_requests2 endpoint_url api_version collection_list start) names []))"

subsection \<open>Measures and invariants used in the proofs\<close>

fun count_nodes :: "tree \<Rightarrow> nat" where
  "count_nodes (Node n cs) = Suc (sum_list (map count_nodes cs))"


text \<open>
  After \<open>k\<close> directory entries: \<^verbatim>\<open>root\<close> and \<^verbatim>\<open>root_name\<close> are bound, the tree has \<open>k\<close>
  nodes, and \<^verbatim>\<open>child\<close>, when bound, names a node of the tree other than the root.
\<close>

definition built :: "nat \<Rightarrow> locals \<Rightarrow> bool" where
  "built k st =
     (case root st of
        None \<Rightarrow> False
      | Some t \<Rightarrow>
          root_name st \<noteq> None \<and> count_nodes t = k \<and>
          (case child st of None \<Rightarrow> True | Some p \<Rightarrow> p \<noteq> [] \<and> node_at t p \<noteq> None))"

section \<open>Properties\<close>

subsection \<open>Trees and the hierarchy loop\<close>


lemma enumerate_from_Nil: "enumerate_from s [] = []"
  by (simp add: enumerate_from_def)

lemma enumerate_from_Cons: "enumerate_from s (x # xs) = (s, x) # enumerate_from (Suc s) xs"
  by (simp add: enumerate_from_def upt_rec)

lemma length_enumerate_from: "length (enumerate_from s xs) = length xs"
  by (simp add: enumerate_from_def)

lemma map_snd_enumerate_from: "map snd (enumerate_from s xs) = xs"
  by (simp add: enumerate_from_def)

lemma count_attach:
  "node_at t p \<noteq> None \<Longrightarrow> count_nodes (attach p n t) = Suc (count_nodes t)"
proof (induction p arbitrary: t)
  case Nil
  then show ?case by (cases t) simp
next
  case (Cons i p)
  obtain a cs where t: "t = Node a cs" by (cases t)
  with Cons.prems have i: "i < length cs" and v: "node_at (cs ! i) p \<noteq> None"
    by (auto split: if_splits)
  have "count_nodes (attach p n (cs ! i)) = Suc (count_nodes (cs ! i))"
    using Cons.IH [OF v] .
  then have "sum_list (map count_nodes (cs[i := attach p n (cs ! i)]))
      = Suc (sum_list (map count_nodes cs))"
    using i by (simp add: map_update sum_list_update)
  then show ?case using t i by simp
qed

lemma node_at_attach:
  "node_at t p \<noteq> None \<Longrightarrow>
   node_at (attach p n t) (p @ [nchildren t p]) = Some (Node n [])"
proof (induction p arbitrary: t)
  case Nil
  then show ?case by (cases t) (simp add: nth_append)
next
  case (Cons i p)
  obtain a cs where t: "t = Node a cs" by (cases t)
  with Cons.prems have i: "i < length cs" and v: "node_at (cs ! i) p \<noteq> None"
    by (auto split: if_splits)
  show ?case using Cons.IH [OF v] t i by simp
qed

lemma length_render:
  "length (render_tree c t) = count_nodes t"
  "length (render_children c ts) = sum_list (map count_nodes ts)"
  by (induction c t and c ts rule: render_tree_render_children.induct) simp_all


lemma node_at_attach_root: "node_at (attach [] n t) [nchildren t []] = Some (Node n [])"
  using node_at_attach [of t "[]" n] by simp

lemma step_built:
  assumes "built k st" and "i \<noteq> 0" and "hierarchy_step st (i, key, v) = Inr st'"
  shows "built (Suc k) st' \<and> root_name st' = root_name st"
proof -
  from assms(1) obtain t rn where t: "root st = Some t" and rn: "root_name st = Some rn"
    and k: "count_nodes t = k"
    and c: "\<And>p. child st = Some p \<Longrightarrow> p \<noteq> [] \<and> node_at t p \<noteq> None"
    by (auto simp: built_def split: option.splits)
  show ?thesis
  proof (cases "parentCollection v = Some rn")
    case True
    with assms(2,3) t rn have st': "st' = st\<lparr>root := Some (attach [] (friendlyName v) t),
        child := Some [nchildren t []]\<rparr>"
      by (simp add: hierarchy_step_def)
    have "count_nodes (attach [] (friendlyName v) t) = Suc k"
      using count_attach [of t "[]"] k by simp
    moreover have "node_at (attach [] (friendlyName v) t) [nchildren t []] \<noteq> None"
      using node_at_attach_root [of "friendlyName v" t] by simp
    ultimately show ?thesis using st' rn by (simp add: built_def)
  next
    case False
    with assms(2,3) t rn obtain p where p: "child st = Some p"
      and st': "st' = st\<lparr>root := Some (attach p (friendlyName v) t),
        child := Some (p @ [nchildren t p])\<rparr>"
      by (auto simp: hierarchy_step_def split: option.splits)
    from c [OF p] have v: "node_at t p \<noteq> None" by simp
    have "count_nodes (attach p (friendlyName v) t) = Suc k"
      using count_attach [OF v] k by simp
    moreover have "node_at (attach p (friendlyName v) t) (p @ [nchildren t p]) \<noteq> None"
      using node_at_attach [OF v, of "friendlyName v"] by simp
    ultimately show ?thesis using st' rn by (simp add: built_def)
  qed
qed

lemma step_error:
  assumes "built k st" and "i \<noteq> 0" and "hierarchy_step st (i, key, v) = Inl e"
  shows "e = UnboundLocalError ''child'' \<and> child st = None"
  using assms
  by (auto simp: built_def hierarchy_step_def Let_def split: option.splits if_splits)

lemma loop_built:
  "built k st \<Longrightarrow> hierarchy_loop st (enumerate_from (Suc i) xs) = Inr st' \<Longrightarrow>
   built (k + length xs) st' \<and> root_name st' = root_name st"
proof (induction xs arbitrary: k st i)
  case Nil
  then show ?case by (simp add: enumerate_from_Nil)
next
  case (Cons x xs)
  obtain key v where x: "x = (key, v)" by (cases x)
  from Cons.prems(2) obtain st1 where s1: "hierarchy_step st (Suc i, key, v) = Inr st1"
    and l: "hierarchy_loop st1 (enumerate_from (Suc (Suc i)) xs) = Inr st'"
    by (auto simp: enumerate_from_Cons x split: sum.splits)
  from step_built [OF Cons.prems(1) _ s1]
  have b1: "built (Suc k) st1" and r1: "root_name st1 = root_name st" by simp_all
  from Cons.IH [OF b1 l] r1 show ?case by simp
qed

lemma loop_error:
  "built k st \<Longrightarrow> hierarchy_loop st (enumerate_from (Suc i) xs) = Inl e \<Longrightarrow>
   e = UnboundLocalError ''child''"
proof (induction xs arbitrary: k st i)
  case Nil
  then show ?case by (simp add: enumerate_from_Nil)
next
  case (Cons x xs)
  obtain key v where x: "x = (key, v)" by (cases x)
  show ?case
  proof (cases "hierarchy_step st (Suc i, key, v)")
    case (Inl e')
    with Cons.prems(2) have "e' = e" by (simp add: enumerate_from_Cons x)
    with step_error [OF Cons.prems(1) _ Inl] show ?thesis by simp
  next
    case (Inr st1)
    with Cons.prems(2) have l: "hierarchy_loop st1 (enumerate_from (Suc (Suc i)) xs) = Inl e"
      by (simp add: enumerate_from_Cons x)
    from step_built [OF Cons.prems(1) _ Inr] have "built (Suc k) st1" by simp
    from Cons.IH [OF this l] show ?thesis .
  qed
qed

lemma step_first:
  "hierarchy_step \<lparr>root = None, root_name = None, child = None\<rparr> (0, key, v)
     = Inr \<lparr>root = Some (Node (friendlyName v) []), root_name = Some key, child = None\<rparr>"
  by (simp add: hierarchy_step_def)

lemma built_first:
  "built 1 \<lparr>root = Some (Node n []), root_name = Some key, child = None\<rparr>"
  by (simp add: built_def)

lemma build_Nil: "hierarchy_build [] = Inr \<lparr>root = None, root_name = None, child = None\<rparr>"
  by (simp add: hierarchy_build_def enumerate_from_Nil)

lemma build_Cons:
  "hierarchy_build ((key, v) # d) =
     hierarchy_loop \<lparr>root = Some (Node (friendlyName v) []), root_name = Some key, child = None\<rparr>
       (enumerate_from (Suc 0) d)"
  by (simp add: hierarchy_build_def enumerate_from_Cons step_first)

lemma build_built:
  assumes "hierarchy_build d = Inr st" and "d \<noteq> []"
  shows "built (length d) st"
proof -
  from assms(2) obtain key v d' where d: "d = (key, v) # d'" by (cases d) auto
  from assms(1) have "hierarchy_loop
      \<lparr>root = Some (Node (friendlyName v) []), root_name = Some key, child = None\<rparr>
      (enumerate_from (Suc 0) d') = Inr st"
    by (simp add: d build_Cons)
  from loop_built [OF built_first this] show ?thesis by (simp add: d)
qed

lemma build_error:
  assumes "hierarchy_build d = Inl e"
  shows "d \<noteq> [] \<and> e = UnboundLocalError ''child''"
proof (cases d)
  case Nil
  with assms show ?thesis by (simp add: build_Nil)
next
  case (Cons x d')
  obtain key v where x: "x = (key, v)" by (cases x)
  from assms have "hierarchy_loop
      \<lparr>root = Some (Node (friendlyName v) []), root_name = Some key, child = None\<rparr>
      (enumerate_from (Suc 0) d') = Inl e"
    by (simp add: Cons x build_Cons)
  from loop_error [OF built_first this] Cons show ?thesis by simp
qed

subsection \<open>The directory\<close>


lemma keys_dict_set:
  "map fst (dict_set k v d) = (if k \<in> fst ` set d then map fst d else map fst d @ [k])"
  by (induction d) force+

lemma distinct_dict_set:
  "distinct (map fst d) \<Longrightarrow> distinct (map fst (dict_set k v d))"
  by (simp add: keys_dict_set)

lemma set_keys_dict_set: "fst ` set (dict_set k v d) = insert k (fst ` set d)"
proof -
  have "set (map fst (dict_set k v d)) = insert k (set (map fst d))"
    by (auto simp: keys_dict_set)
  then show ?thesis by simp
qed

lemma directory_fold:
  "distinct (map fst d) \<Longrightarrow>
   distinct (map fst (foldl (\<lambda>acc (i, coll). dict_set (coll_name coll) (f i coll) acc) d
      (enumerate_from s xs)))
   \<and> fst ` set (foldl (\<lambda>acc (i, coll). dict_set (coll_name coll) (f i coll) acc) d
      (enumerate_from s xs)) = fst ` set d \<union> coll_name ` set xs"
proof (induction xs arbitrary: d s)
  case Nil
  then show ?case by (simp add: enumerate_from_Nil)
next
  case (Cons x xs)
  have "distinct (map fst (dict_set (coll_name x) (f s x) d))"
    using Cons.prems by (rule distinct_dict_set)
  from Cons.IH [OF this, of "Suc s"] show ?case
    by (simp add: enumerate_from_Cons set_keys_dict_set)
qed

lemma directory_keys:
  "distinct (map fst (get_final_collection_names listing))"
  "fst ` set (get_final_collection_names listing) = coll_name ` set listing"
  using directory_fold [of "[]" "\<lambda>i coll. \<lparr>friendlyName = coll_friendlyName coll, index = i,
      parentCollection = coll_parentCollection coll\<rparr>" 0 listing]
  by (simp_all add: get_final_collection_names_def)

lemma directory_length:
  "length (get_final_collection_names listing) = card (coll_name ` set listing)"
proof -
  have "card (coll_name ` set listing) = card (set (map fst (get_final_collection_names listing)))"
    by (simp add: directory_keys(2))
  also have "\<dots> = length (map fst (get_final_collection_names listing))"
    by (rule distinct_card) (rule directory_keys(1))
  finally show ?thesis by simp
qed

lemma directory_Nil: "(get_final_collection_names listing = []) = (listing = [])"
proof -
  have "(get_final_collection_names listing = []) = (fst ` set (get_final_collection_names listing) = {})"
    by simp
  then show ?thesis by (simp add: directory_keys(2))
qed

lemma hierarchy_returns_count:
  assumes "hierarchy listing = Inr ls"
  shows "length ls = card (coll_name ` set listing)"
proof -
  from assms obtain st t where b: "hierarchy_build (get_final_collection_names listing) = Inr st"
    and t: "root st = Some t" and ls: "ls = map (\<lambda>(pre, n). pre @ n) (render_tree [] t)"
    by (auto simp: hierarchy_def split: sum.splits option.splits)
  have ne: "get_final_collection_names listing \<noteq> []"
    using b t by (auto simp: build_Nil)
  from build_built [OF b ne] t
  have "count_nodes t = length (get_final_collection_names listing)"
    by (simp add: built_def)
  with ls show ?thesis by (simp add: length_render directory_length)
qed

lemma hierarchy_raises:
  assumes "hierarchy listing = Inl e"
  shows "(listing = [] \<and> e = UnboundLocalError ''root'')
       \<or> (listing \<noteq> [] \<and> e = UnboundLocalError ''child'')"
proof (cases "hierarchy_build (get_final_collection_names listing)")
  case (Inl e')
  with assms have "e' = e" by (simp add: hierarchy_def)
  with build_error [OF Inl] show ?thesis by (simp add: directory_Nil)
next
  case (Inr st)
  show ?thesis
  proof (cases "listing = []")
    case True
    with assms show ?thesis
      by (simp add: hierarchy_def get_final_collection_names_def enumerate_from_Nil build_Nil)
  next
    case False
    then have "get_final_collection_names listing \<noteq> []" by (simp add: directory_Nil)
    from build_built [OF Inr this] assms Inr show ?thesis
      by (auto simp: hierarchy_def built_def split: option.splits)
  qed
qed


subsection \<open>The start collection and the errors of path creation\<close>


lemma start_fold_check_grows:
  "check \<noteq> [] \<Longrightarrow>
   snd (foldl (\<lambda>(start, check) (name, v).
              if start = friendlyName v \<or> start = name then (name, check @ [name])
              else (start, check)) (s, check) d) \<noteq> []"
  by (induction d arbitrary: s check) (auto split: prod.splits)

lemma start_fold_no_match:
  "\<forall>(k, v) \<in> set d. s \<noteq> k \<and> s \<noteq> friendlyName v \<Longrightarrow>
   foldl (\<lambda>(start, check) (name, v).
              if start = friendlyName v \<or> start = name then (name, check @ [name])
              else (start, check)) (s, check) d = (s, check)"
  by (induction d) auto

lemma start_fold_match:
  "\<exists>(k, v) \<in> set d. s = k \<or> s = friendlyName v \<Longrightarrow>
   snd (foldl (\<lambda>(start, check) (name, v).
              if start = friendlyName v \<or> start = name then (name, check @ [name])
              else (start, check)) (s, check) d) \<noteq> []"
proof (induction d)
  case Nil
  then show ?case by simp
next
  case (Cons x d)
  obtain k v where x: "x = (k, v)" by (cases x)
  show ?case
  proof (cases "s = friendlyName v \<or> s = k")
    case True
    then show ?thesis using start_fold_check_grows [of "check @ [k]" k d] by (simp add: x)
  next
    case False
    with Cons.prems x have "\<exists>(k, v) \<in> set d. s = k \<or> s = friendlyName v" by auto
    from Cons.IH [OF this] False show ?thesis by (simp add: x)
  qed
qed

lemma resolve_start_not_found:
  "(\<exists>msg. resolve_start d start = Inl (ValueError msg))
     = (\<forall>(k, v) \<in> set d. strip start \<noteq> k \<and> strip start \<noteq> friendlyName v)"
  "\<forall>(k, v) \<in> set d. strip start \<noteq> k \<and> strip start \<noteq> friendlyName v \<Longrightarrow>
     resolve_start d start = Inl (ValueError (start_not_found (strip start)))"
  "resolve_start d start = Inl e \<Longrightarrow> e = ValueError (start_not_found (strip start))"
proof -
  show b: "resolve_start d start = Inl (ValueError (start_not_found (strip start)))"
    if "\<forall>(k, v) \<in> set d. strip start \<noteq> k \<and> strip start \<noteq> friendlyName v"
    using start_fold_no_match [OF that, of "[]"]
    by (simp add: resolve_start_def start_loop_def)
  have c: "\<exists>s. resolve_start d start = Inr s"
    if "\<not> (\<forall>(k, v) \<in> set d. strip start \<noteq> k \<and> strip start \<noteq> friendlyName v)"
  proof -
    from that have "\<exists>(k, v) \<in> set d. strip start = k \<or> strip start = friendlyName v"
      by auto
    from start_fold_match [OF this, of "[]"] show ?thesis
      by (auto simp: resolve_start_def start_loop_def split: prod.splits)
  qed
  show "(\<exists>msg. resolve_start d start = Inl (ValueError msg))
     = (\<forall>(k, v) \<in> set d. strip start \<noteq> k \<and> strip start \<noteq> friendlyName v)"
    using b c by fastforce
  show "e = ValueError (start_not_found (strip start))" if "resolve_start d start = Inl e"
    using b c that by fastforce
qed

lemma put_all_error:
  "put_all put rs sent = (sent', Inl e) \<Longrightarrow> \<exists>m. e = RequestException m"
  by (induction rs arbitrary: sent) (auto split: put_result.splits)

lemma create_paths_error:
  "create_paths put reqs names sent = (sent', Inl e) \<Longrightarrow> \<exists>m. e = RequestException m"
proof (induction names arbitrary: sent)
  case Nil
  then show ?case by simp
next
  case (Cons name names)
  obtain s1 r1 where p: "put_all put (reqs name) sent = (s1, r1)" by (cases "put_all put (reqs name) sent")
  show ?case
  proof (cases r1)
    case (Inl e')
    with Cons.prems p have "e' = e" by simp
    with put_all_error p Inl show ?thesis by blast
  next
    case (Inr u)
    with Cons.prems p have "create_paths put reqs names s1 = (sent', Inl e)" by simp
    from Cons.IH [OF this] show ?thesis .
  qed
qed


subsection \<open>Requests of a path\<close>

lemma nth_enumerate_from: "k < length xs \<Longrightarrow> enumerate_from s xs ! k = (s + k, xs ! k)"
  by (simp add: enumerate_from_def)

lemma remove_spaces_id: "\<not> has_space s \<Longrightarrow> remove_spaces s = s"
  by (auto simp: has_space_def remove_spaces_def filter_id_conv)

lemma put_all_responses:
  "\<forall>n r. \<exists>status content. put n r = Response status content \<Longrightarrow>
   put_all put rs sent = (sent @ rs, Inr ())"
proof (induction rs arbitrary: sent)
  case Nil
  then show ?case by simp
next
  case (Cons r rs)
  from Cons.prems obtain status content where "put (length sent) r = Response status content"
    by blast
  with Cons.IH [OF Cons.prems, of "sent @ [r]"] show ?case by simp
qed

lemma create_paths_responses:
  "\<forall>n r. \<exists>status content. put n r = Response status content \<Longrightarrow>
   create_paths put reqs names sent = (sent @ concat (map reqs names), Inr ())"
  by (induction names arbitrary: sent) (simp_all add: put_all_responses)

lemma str_split_nonempty: "str_split sep s \<noteq> []"
  by (induction s) (auto split: list.splits)

lemma final_names_nonempty: "final_names name \<noteq> []"
  by (simp add: final_names_def str_split_nonempty)

lemma length_path_requests:
  "length (path_requests endpoint_url api_version d s name) = length (final_names name)"
  by (simp add: path_requests_def Let_def updated_final_names_def length_enumerate_from)



lemma updated_name_snoc:
  "updated_name (d @ [(k, v)]) s =
     (if s = friendlyName v \<and> s \<noteq> k then (if has_space s then s else k)
      else updated_name d s)"
  by (cases "s = friendlyName v \<and> s \<noteq> k") (auto simp: updated_name_def)

lemma updated_name_last_match:
  "updated_name d s =
     (if has_space s \<or> filter (\<lambda>(k, v). s = friendlyName v \<and> s \<noteq> k) d = [] then s
      else fst (last (filter (\<lambda>(k, v). s = friendlyName v \<and> s \<noteq> k) d)))"
proof (induction d rule: rev_induct)
  case Nil
  then show ?case by (simp add: updated_name_def)
next
  case (snoc x d)
  obtain k v where x: "x = (k, v)" by (cases x)
  let ?m = "\<lambda>(k, v). s = friendlyName v \<and> s \<noteq> k"
  show ?case
  proof (cases "s = friendlyName v \<and> s \<noteq> k")
    case True
    then have f: "filter ?m (d @ [x]) = filter ?m d @ [(k, v)]" by (auto simp: x)
    have u: "updated_name (d @ [x]) s = (if has_space s then s else k)"
      using True by (auto simp: x updated_name_snoc)
    show ?thesis unfolding f u by simp
  next
    case False
    then have f: "filter ?m (d @ [x]) = filter ?m d" by (auto simp: x)
    have u: "updated_name (d @ [x]) s = updated_name d s"
      using False by (auto simp: x updated_name_snoc)
    show ?thesis unfolding f u by (rule snoc.IH)
  qed
qed

subsection \<open>The planned collections of \<^verbatim>\<open>create_collectiions2\<close>\<close>


lemma collect_entry_keys:
  "fst ` set cd \<subseteq> fst ` set (collect_entry start i name cd x)"
  by (cases x) (auto simp: collect_entry_def set_keys_dict_set)

lemma collect_fold_keys:
  "fst ` set cd \<subseteq> fst ` set (foldl (collect_entry start i name) cd d)"
proof (induction d arbitrary: cd)
  case Nil
  then show ?case by simp
next
  case (Cons x d)
  from collect_entry_keys [of cd start i name x] Cons.IH [of "collect_entry start i name cd x"]
  show ?case by auto
qed



lemma collect_fold_friendly_match:
  assumes "(k, v) \<in> set d" and "friendlyName v = name" and "k \<noteq> name" and "0 < i"
  shows "k \<in> fst ` set (foldl (collect_entry start i name) cd d)"
  using assms(1)
proof (induction d arbitrary: cd)
  case Nil
  then show ?case by simp
next
  case (Cons x d)
  show ?case
  proof (cases "x = (k, v)")
    case True
    have "k \<in> fst ` set (collect_entry start i name cd x)"
      using assms(2-4) by (auto simp: True collect_entry_def set_keys_dict_set)
    with collect_fold_keys [of "collect_entry start i name cd x" start i name d]
    show ?thesis by auto
  next
    case False
    with Cons.prems have "(k, v) \<in> set d" by simp
    from Cons.IH [OF this] show ?thesis by simp
  qed
qed

lemma collect_fold_id_match:
  assumes "(name, v) \<in> set d" and "0 < i"
  shows "name \<in> fst ` set (foldl (collect_entry start i name) cd d)"
  using assms(1)
proof (induction d arbitrary: cd)
  case Nil
  then show ?case by simp
next
  case (Cons x d)
  show ?case
  proof (cases "x = (name, v)")
    case True
    have "name \<in> fst ` set (collect_entry start i name cd x)"
      using assms(2) by (auto simp: True collect_entry_def set_keys_dict_set)
    with collect_fold_keys [of "collect_entry start i name cd x" start i name d]
    show ?thesis by auto
  next
    case False
    with Cons.prems have "(name, v) \<in> set d" by simp
    from Cons.IH [OF this] show ?thesis by simp
  qed
qed

lemma dict_set_nonempty: "dict_set k v d \<noteq> []"
  by (cases d) (auto split: if_splits)

lemma collect_fold_nonempty:
  "d \<noteq> [] \<Longrightarrow> foldl (collect_entry start i name) cd d \<noteq> []"
proof -
  assume "d \<noteq> []"
  then obtain x d' where d: "d = x # d'" by (cases d) auto
  have "collect_entry start i name cd x \<noteq> []"
    by (cases x) (simp add: collect_entry_def dict_set_nonempty)
  then have "fst ` set (collect_entry start i name cd x) \<noteq> {}" by simp
  with collect_fold_keys [of "collect_entry start i name cd x" start i name d']
  have "fst ` set (foldl (collect_entry start i name) cd d) \<noteq> {}" by (auto simp: d)
  then show ?thesis by auto
qed

lemma segments_fold_keys:
  "fst ` set cd \<subseteq> fst ` set (foldl (\<lambda>collection_dict (i, name).
      foldl (collect_entry start i name) collection_dict d) cd ps)"
proof (induction ps arbitrary: cd)
  case Nil
  then show ?case by simp
next
  case (Cons p ps)
  obtain i name where p: "p = (i, name)" by (cases p)
  from collect_fold_keys [of cd start i name d]
    Cons.IH [of "foldl (collect_entry start i name) cd d"]
  show ?case by (auto simp: p)
qed


lemma segments_fold_member:
  assumes "(i, name) \<in> set ps"
    and "\<And>cd. k \<in> fst ` set (foldl (collect_entry start i name) cd d)"
  shows "k \<in> fst ` set (foldl (\<lambda>collection_dict (i, name).
      foldl (collect_entry start i name) collection_dict d) cd ps)"
  using assms(1)
proof (induction ps arbitrary: cd)
  case Nil
  then show ?case by simp
next
  case (Cons p ps)
  show ?case
  proof (cases "p = (i, name)")
    case True
    from assms(2) [of cd]
      segments_fold_keys [of "foldl (collect_entry start i name) cd d" start d ps]
    show ?thesis by (auto simp: True)
  next
    case False
    with Cons.prems have "(i, name) \<in> set ps" by simp
    from Cons.IH [OF this] show ?thesis by (cases p) simp
  qed
qed

lemma enumerate_from_member:
  "i < length xs \<Longrightarrow> (s + i, xs ! i) \<in> set (enumerate_from s xs)"
  using nth_enumerate_from [of i xs s] nth_mem [of i "enumerate_from s xs"]
  by (simp add: length_enumerate_from)

lemma keys_really_final_list: "map fst (really_final_list l) = map fst l"
proof -
  have "map fst (really_final_list l) = map (fst \<circ> snd) (enumerate_from 0 l)"
    by (auto simp: really_final_list_def split: option.splits)
  also have "\<dots> = map fst (map snd (enumerate_from 0 l))" by simp
  also have "\<dots> = map fst l" by (simp only: map_snd_enumerate_from)
  finally show ?thesis .
qed

lemma urls_path_requests2:
  "map url (path_requests2 endpoint_url api_version d start name) =
     map (\<lambda>k. put_url endpoint_url k api_version)
       (map fst (collection_dict_of d start (final_names name)))"
proof -
  have "map url (path_requests2 endpoint_url api_version d start name) =
     map (\<lambda>k. put_url endpoint_url k api_version)
       (map fst (really_final_list (collection_dict_of d start (final_names name))))"
    by (auto simp: path_requests2_def put_request_def)
  then show ?thesis by (simp only: keys_really_final_list)
qed


lemma path_requests2_nonempty:
  assumes "d \<noteq> []"
  shows "path_requests2 endpoint_url api_version d start name \<noteq> []"
proof -
  obtain f fs where f: "final_names name = f # fs"
    using final_names_nonempty [of name] by (cases "final_names name") auto
  have "foldl (collect_entry start 0 f) [] d \<noteq> []"
    using assms by (rule collect_fold_nonempty)
  then have "fst ` set (foldl (collect_entry start 0 f) [] d) \<noteq> {}" by simp
  with segments_fold_keys [of "foldl (collect_entry start 0 f) [] d" start d
      "enumerate_from (Suc 0) fs"]
  have "fst ` set (collection_dict_of d start (final_names name)) \<noteq> {}"
    by (auto simp: collection_dict_of_def f enumerate_from_Cons)
  then have "map url (path_requests2 endpoint_url api_version d start name) \<noteq> []"
    unfolding urls_path_requests2 by auto
  then show ?thesis by auto
qed

lemma path_requests2_both_matches:
  assumes "0 < i" and "i < length (final_names name)" and "final_names name ! i = s"
    and "(s, v1) \<in> set d" and "(k2, v2) \<in> set d" and "friendlyName v2 = s" and "k2 \<noteq> s"
  shows "put_url endpoint_url s api_version
           \<in> url ` set (path_requests2 endpoint_url api_version d start name)
       \<and> put_url endpoint_url k2 api_version
           \<in> url ` set (path_requests2 endpoint_url api_version d start name)"
proof -
  have m: "(i, s) \<in> set (enumerate_from 0 (final_names name))"
    using enumerate_from_member [OF assms(2), of 0] assms(3) by simp
  have "s \<in> fst ` set (collection_dict_of d start (final_names name))"
    unfolding collection_dict_of_def
    by (rule segments_fold_member [OF m]) (rule collect_fold_id_match [OF assms(4,1)])
  moreover have "k2 \<in> fst ` set (collection_dict_of d start (final_names name))"
    unfolding collection_dict_of_def
    by (rule segments_fold_member [OF m])
      (rule collect_fold_friendly_match [OF assms(5,6,7,1)])
  moreover have "url ` set (path_requests2 endpoint_url api_version d start name)
      = (\<lambda>k. put_url endpoint_url k api_version)
          ` fst ` set (collection_dict_of d start (final_names name))"
    using urls_path_requests2 [of endpoint_url api_version d start name]
    by (metis image_set)
  ultimately show ?thesis by auto
qed

subsection \<open>New segments and the exceptions of the creators\<close>

lemma resolve_start_directory_nonempty: "resolve_start d start = Inr s \<Longrightarrow> d \<noteq> []"
  by (auto simp: resolve_start_def start_loop_def)

lemma updated_name_new:
  assumes "\<forall>(k, v) \<in> set d. s \<noteq> k \<and> s \<noteq> friendlyName v"
  shows "updated_name d s = s"
proof -
  have "filter (\<lambda>(k, v). s = friendlyName v \<and> s \<noteq> k) d = []"
    using assms by (auto simp: filter_empty_conv)
  then show ?thesis by (simp add: updated_name_last_match)
qed


lemma three_new_segments:
  assumes "final_names name = [a, b, c]"
    and "\<forall>(k, v) \<in> set d. \<forall>x \<in> {a, b, c}. x \<noteq> k \<and> x \<noteq> friendlyName v"
  shows "path_requests endpoint_url api_version d s name =
     [put_request endpoint_url api_version (remove_spaces a) s a,
      put_request endpoint_url api_version (remove_spaces b) a b,
      put_request endpoint_url api_version (remove_spaces c) b c]"
proof -
  have "updated_name d a = a" "updated_name d b = b" "updated_name d c = c"
    using assms(2) by (auto intro!: updated_name_new)
  then show ?thesis
    by (simp add: path_requests_def assms(1) updated_final_names_def enumerate_from_Cons
        enumerate_from_Nil segment_request_def Let_def remove_spaces_id)
qed

subsection \<open>The hierarchy of a directory extended by one record\<close>















subsection \<open>Resolution of a segment that is an id and a friendly name\<close>

text \<open>
  Claim C1, as amended. The resolution step of \<^verbatim>\<open>create_collectiions\<close> rewrites a segment
  only through friendly-name matches: a segment without a space that is the friendly name
  of an entry with another id resolves to the id of the last such entry of the directory,
  also when the segment is the id of some entry; any other segment is kept as written.
  In \<^verbatim>\<open>create_collectiions2\<close> a segment after the first that is the id of one entry and
  the friendly name of another gets a request under both ids.
\<close>

theorem friendly_name_match_wins:
  "updated_name d s =
     (if has_space s \<or> filter (\<lambda>(k, v). s = friendlyName v \<and> s \<noteq> k) d = [] then s
      else fst (last (filter (\<lambda>(k, v). s = friendlyName v \<and> s \<noteq> k) d)))
   \<and> (0 < i \<and> i < length (final_names name) \<and> final_names name ! i = s
        \<and> (s, v1) \<in> set d \<and> (k2, v2) \<in> set d \<and> friendlyName v2 = s \<and> k2 \<noteq> s \<longrightarrow>
      put_url endpoint_url s api_version
        \<in> url ` set (path_requests2 endpoint_url api_version d start name)
      \<and> put_url endpoint_url k2 api_version
        \<in> url ` set (path_requests2 endpoint_url api_version d start name))"
  using updated_name_last_match [of d s]
    path_requests2_both_matches [of i name s v1 d k2 v2 endpoint_url api_version start]
  by blast

theorem friendly_name_match_wins_witness:
  "updated_name
     [(''abc123'', \<lparr>friendlyName = ''Finance'', index = 0, parentCollection = None\<rparr>),
      (''fin99'', \<lparr>friendlyName = ''abc123'', index = 1, parentCollection = Some ''abc123''\<rparr>)]
     ''abc123'' = ''fin99''
   \<and> put_url ''https://acct/'' ''abc123'' ''v1''
     \<in> url ` set (path_requests2 ''https://acct/'' ''v1''
        [(''abc123'', \<lparr>friendlyName = ''Finance'', index = 0, parentCollection = None\<rparr>),
         (''fin99'', \<lparr>friendlyName = ''abc123'', index = 1, parentCollection = Some ''abc123''\<rparr>)]
        ''abc123'' ''Sales/abc123'')
   \<and> put_url ''https://acct/'' ''fin99'' ''v1''
     \<in> url ` set (path_requests2 ''https://acct/'' ''v1''
        [(''abc123'', \<lparr>friendlyName = ''Finance'', index = 0, parentCollection = None\<rparr>),
         (''fin99'', \<lparr>friendlyName = ''abc123'', index = 1, parentCollection = Some ''abc123''\<rparr>)]
        ''abc123'' ''Sales/abc123'')"
proof -
  let ?d = "[(''abc123'', \<lparr>friendlyName = ''Finance'', index = 0, parentCollection = None\<rparr>),
      (''fin99'', \<lparr>friendlyName = ''abc123'', index = 1, parentCollection = Some ''abc123''\<rparr>)]"
  have f: "final_names ''Sales/abc123'' = [''Sales'', ''abc123'']"
    by code_simp
  have h: "\<not> has_space ''abc123''"
    by (simp add: has_space_def)
  note t = friendly_name_match_wins [of ?d "''abc123''" 1 "''Sales/abc123''"
      "\<lparr>friendlyName = ''Finance'', index = 0, parentCollection = None\<rparr>" "''fin99''"
      "\<lparr>friendlyName = ''abc123'', index = 1, parentCollection = Some ''abc123''\<rparr>"
      "''https://acct/''" "''v1''" "''abc123''"]
  from t h f show ?thesis by simp
qed

text \<open>
  The claim as stated, that the id match is selected, fails on the directory of the
  specification's example: segment \<^verbatim>\<open>abc123\<close> resolves to \<^verbatim>\<open>fin99\<close>, the request of
  \<^verbatim>\<open>create_collectiions\<close> goes to \<^verbatim>\<open>fin99\<close>, and \<^verbatim>\<open>create_collectiions2\<close> sends one
  request to each of the two ids.
\<close>

theorem id_match_precedence_counterexample:
  "updated_name
     (get_final_collection_names
        [\<lparr>coll_name = ''abc123'', coll_friendlyName = ''Finance'', coll_parentCollection = None\<rparr>,
         \<lparr>coll_name = ''fin99'', coll_friendlyName = ''abc123'',
          coll_parentCollection = Some ''abc123''\<rparr>])
     ''abc123'' = ''fin99''
   \<and> create_collectiions (\<lambda>n r. Response 200 []) ''https://acct/''
       [\<lparr>coll_name = ''root'', coll_friendlyName = ''Root'', coll_parentCollection = None\<rparr>,
        \<lparr>coll_name = ''abc123'', coll_friendlyName = ''Finance'',
         coll_parentCollection = Some ''root''\<rparr>,
        \<lparr>coll_name = ''fin99'', coll_friendlyName = ''abc123'',
         coll_parentCollection = Some ''root''\<rparr>]
       ''root'' (Some [''abc123'']) ''v1''
     = ([put_request ''https://acct/'' ''v1'' ''fin99'' ''root'' ''abc123''], Inr ())
   \<and> create_collectiions2 (\<lambda>n r. Response 200 []) ''https://acct/''
       [\<lparr>coll_name = ''root'', coll_friendlyName = ''Root'', coll_parentCollection = None\<rparr>,
        \<lparr>coll_name = ''abc123'', coll_friendlyName = ''Finance'',
         coll_parentCollection = Some ''root''\<rparr>,
        \<lparr>coll_name = ''fin99'', coll_friendlyName = ''abc123'',
         coll_parentCollection = Some ''root''\<rparr>]
       ''root'' (Some [''Sales/abc123'']) ''v1''
     = ([put_request ''https://acct/'' ''v1'' ''Sales'' ''root'' ''Sales'',
         put_request ''https://acct/'' ''v1'' ''abc123'' ''root'' ''abc123'',
         put_request ''https://acct/'' ''v1'' ''fin99'' ''root'' ''abc123''], Inr ())"
  by code_simp

subsection \<open>Segments that already exist\<close>

text \<open>
  Claim C2, as amended. Neither creator consults the directory to skip a collection that
  exists. When the start collection resolves and the transport answers every request,
  \<^verbatim>\<open>create_collectiions\<close> issues exactly one PUT for each segment of each path and
  \<^verbatim>\<open>create_collectiions2\<close> at least one for each path, whatever the directory holds; a
  second run against the refreshed directory therefore issues requests again.
\<close>

theorem one_request_per_segment:
  assumes "resolve_start (get_final_collection_names listing) start = Inr s"
    and "\<forall>n r. \<exists>status content. put n r = Response status content"
  shows "create_collectiions put endpoint_url listing start (Some names) api_version
       = (concat (map (path_requests endpoint_url api_version
                         (get_final_collection_names listing) s) names), Inr ())
     \<and> length (fst (create_collectiions put endpoint_url listing start (Some names) api_version))
       = sum_list (map (\<lambda>name. length (final_names name)) names)
     \<and> (\<forall>name \<in> set names.
          path_requests endpoint_url api_version (get_final_collection_names listing) s name \<noteq> [])
     \<and> create_collectiions2 put endpoint_url listing start (Some names) api_version
       = (concat (map (path_requests2 endpoint_url api_version
                         (get_final_collection_names listing) s) names), Inr ())
     \<and> (\<forall>name \<in> set names.
          path_requests2 endpoint_url api_version (get_final_collection_names listing) s name \<noteq> [])"
proof -
  let ?d = "get_final_collection_names listing"
  have a: "create_collectiions put endpoint_url listing start (Some names) api_version
       = (concat (map (path_requests endpoint_url api_version ?d s) names), Inr ())"
    using assms(1) create_paths_responses [OF assms(2), of _ names "[]"]
    by (simp add: create_collectiions_def)
  have b: "length (concat (map (path_requests endpoint_url api_version ?d s) names))
       = sum_list (map (\<lambda>name. length (final_names name)) names)"
    by (simp add: length_concat length_path_requests comp_def)
  have c: "path_requests endpoint_url api_version ?d s name \<noteq> []" for name
    using length_path_requests [of endpoint_url api_version ?d s name]
      final_names_nonempty [of name] by auto
  have d: "create_collectiions2 put endpoint_url listing start (Some names) api_version
       = (concat (map (path_requests2 endpoint_url api_version ?d s) names), Inr ())"
    using assms(1) create_paths_responses [OF assms(2), of _ names "[]"]
    by (simp add: create_collectiions2_def)
  have e: "path_requests2 endpoint_url api_version ?d s name \<noteq> []" for name
    using path_requests2_nonempty [OF resolve_start_directory_nonempty [OF assms(1)]] .
  show ?thesis using a b c d e by simp
qed

theorem one_request_per_segment_witness:
  "create_collectiions (\<lambda>n r. Response 200 []) ''https://acct/''
       [\<lparr>coll_name = ''root'', coll_friendlyName = ''Root'', coll_parentCollection = None\<rparr>,
        \<lparr>coll_name = ''fin01'', coll_friendlyName = ''Finance'',
         coll_parentCollection = Some ''root''\<rparr>]
       ''Root'' (Some [''Finance'']) ''v1''
     = ([put_request ''https://acct/'' ''v1'' ''fin01'' ''root'' ''Finance''], Inr ())
   \<and> length (fst (create_collectiions (\<lambda>n r. Response 200 []) ''https://acct/''
       [\<lparr>coll_name = ''root'', coll_friendlyName = ''Root'', coll_parentCollection = None\<rparr>,
        \<lparr>coll_name = ''fin01'', coll_friendlyName = ''Finance'',
         coll_parentCollection = Some ''root''\<rparr>]
       ''Root'' (Some [''Finance'']) ''v1'')) = 1"
proof -
  let ?l = "[\<lparr>coll_name = ''root'', coll_friendlyName = ''Root'', coll_parentCollection = None\<rparr>,
        \<lparr>coll_name = ''fin01'', coll_friendlyName = ''Finance'',
         coll_parentCollection = Some ''root''\<rparr>]"
  have r: "resolve_start (get_final_collection_names ?l) ''Root'' = Inr ''root''"
    by code_simp
  have p: "\<forall>n r. \<exists>status content. (\<lambda>n r. Response 200 []) n r = Response status content"
    by simp
  have f: "final_names ''Finance'' = [''Finance'']"
    by code_simp
  have q: "path_requests ''https://acct/'' ''v1'' (get_final_collection_names ?l) ''root'' ''Finance''
      = [put_request ''https://acct/'' ''v1'' ''fin01'' ''root'' ''Finance'']"
    by code_simp
  from one_request_per_segment [OF r p, of "''https://acct/''" "[''Finance'']" "''v1''"]
  show ?thesis by (simp add: f q)
qed

text \<open>
  The claim as stated, that a path of existing collections causes no request, fails: with
  \<^verbatim>\<open>fin01\<close> (friendly name \<^verbatim>\<open>Finance\<close>) in the directory, the paths \<^verbatim>\<open>Finance\<close> and
  \<^verbatim>\<open>fin01\<close> each cause a PUT to \<^verbatim>\<open>fin01\<close>; and the path \<^verbatim>\<open>Sales\<close> causes the same
  PUT on a second run, when the directory holds the collection the first run created.
\<close>

theorem existing_collection_skipped_counterexample:
  "create_collectiions (\<lambda>n r. Response 200 []) ''https://acct/''
       [\<lparr>coll_name = ''root'', coll_friendlyName = ''Root'', coll_parentCollection = None\<rparr>,
        \<lparr>coll_name = ''fin01'', coll_friendlyName = ''Finance'',
         coll_parentCollection = Some ''root''\<rparr>]
       ''root'' (Some [''Finance'']) ''v1''
     = ([put_request ''https://acct/'' ''v1'' ''fin01'' ''root'' ''Finance''], Inr ())
   \<and> create_collectiions (\<lambda>n r. Response 200 []) ''https://acct/''
       [\<lparr>coll_name = ''root'', coll_friendlyName = ''Root'', coll_parentCollection = None\<rparr>,
        \<lparr>coll_name = ''fin01'', coll_friendlyName = ''Finance'',
         coll_parentCollection = Some ''root''\<rparr>]
       ''root'' (Some [''fin01'']) ''v1''
     = ([put_request ''https://acct/'' ''v1'' ''fin01'' ''root'' ''fin01''], Inr ())
   \<and> create_collectiions2 (\<lambda>n r. Response 200 []) ''https://acct/''
       [\<lparr>coll_name = ''root'', coll_friendlyName = ''Root'', coll_parentCollection = None\<rparr>,
        \<lparr>coll_name = ''fin01'', coll_friendlyName = ''Finance'',
         coll_parentCollection = Some ''root''\<rparr>]
       ''root'' (Some [''fin01'']) ''v1''
     = ([put_request ''https://acct/'' ''v1'' ''fin01'' ''root'' ''fin01''], Inr ())
   \<and> create_collectiions (\<lambda>n r. Response 200 []) ''https://acct/''
       [\<lparr>coll_name = ''root'', coll_friendlyName = ''Root'', coll_parentCollection = None\<rparr>]
       ''root'' (Some [''Sales'']) ''v1''
     = ([put_request ''https://acct/'' ''v1'' ''Sales'' ''root'' ''Sales''], Inr ())
   \<and> create_collectiions (\<lambda>n r. Response 200 []) ''https://acct/''
       [\<lparr>coll_name = ''root'', coll_friendlyName = ''Root'', coll_parentCollection = None\<rparr>,
        \<lparr>coll_name = ''Sales'', coll_friendlyName = ''Sales'',
         coll_parentCollection = Some ''root''\<rparr>]
       ''root'' (Some [''Sales'']) ''v1''
     = ([put_request ''https://acct/'' ''v1'' ''Sales'' ''root'' ''Sales''], Inr ())"
  by code_simp

subsection \<open>Three new segments\<close>

text \<open>
  Claim C3, evaluated where it fails. For the path \<^verbatim>\<open>My Coll/B/C\<close> of three new segments
  \<^verbatim>\<open>create_collectiions\<close> issues three requests in the order of the segments, the first
  under the start collection; but the parent reference of the second is the segment
  \<^verbatim>\<open>My Coll\<close> as written, while the first collection was created under the id
  \<^verbatim>\<open>MyColl\<close>.
\<close>

theorem parent_reference_keeps_spaces:
  "create_collectiions (\<lambda>n r. Response 200 []) ''https://acct/''
       [\<lparr>coll_name = ''root'', coll_friendlyName = ''Root'', coll_parentCollection = None\<rparr>]
       ''root'' (Some [''My Coll/B/C'']) ''v1''
     = ([put_request ''https://acct/'' ''v1'' ''MyColl'' ''root'' ''My Coll'',
         put_request ''https://acct/'' ''v1'' ''B'' ''My Coll'' ''B'',
         put_request ''https://acct/'' ''v1'' ''C'' ''B'' ''C''], Inr ())"
  by code_simp

subsection \<open>A record whose parent is not in the directory\<close>




subsection \<open>A cyclic parent chain\<close>

text \<open>
  Claim C5, evaluated where it fails. The loop runs once for each record and follows no
  parent chain, so it always ends; but on the directory \<^verbatim>\<open>root\<close>, \<^verbatim>\<open>x\<close> (parent
  \<^verbatim>\<open>y\<close>), \<^verbatim>\<open>y\<close> (parent \<^verbatim>\<open>x\<close>) it raises \<^verbatim>\<open>UnboundLocalError\<close> at \<^verbatim>\<open>x\<close>, because
  \<^verbatim>\<open>child\<close> is read before any child of the root was created.
\<close>

theorem cyclic_directory_raises:
  "hierarchy
     [\<lparr>coll_name = ''root'', coll_friendlyName = ''Root'', coll_parentCollection = None\<rparr>,
      \<lparr>coll_name = ''x'', coll_friendlyName = ''X'', coll_parentCollection = Some ''y''\<rparr>,
      \<lparr>coll_name = ''y'', coll_friendlyName = ''Y'', coll_parentCollection = Some ''x''\<rparr>]
   = Inl (UnboundLocalError ''child'')"
  by code_simp

text \<open>When the cycle is the whole directory, the first record is the root and the build returns.\<close>

lemma two_cycle_alone_renders:
  "hierarchy
     [\<lparr>coll_name = ''x'', coll_friendlyName = ''X'', coll_parentCollection = Some ''y''\<rparr>,
      \<lparr>coll_name = ''y'', coll_friendlyName = ''Y'', coll_parentCollection = Some ''x''\<rparr>]
   = Inr [''X'', ''+-- Y'']"
  by code_simp

subsection \<open>The number of nodes\<close>

text \<open>
  Claim C6, evaluated where it fails. Whenever \<^verbatim>\<open>_hierarchy\<close> returns, it has printed one
  line for each distinct id of the listing (lemma \<open>hierarchy_returns_count\<close>); but on the
  listing \<^verbatim>\<open>root\<close>, \<^verbatim>\<open>b\<close> (parent \<^verbatim>\<open>a\<close>), \<^verbatim>\<open>a\<close> (parent \<^verbatim>\<open>root\<close>), of three distinct
  ids, it raises \<^verbatim>\<open>UnboundLocalError\<close> and prints no tree.
\<close>

theorem grandchild_listed_first_raises:
  "hierarchy
     [\<lparr>coll_name = ''root'', coll_friendlyName = ''Root'', coll_parentCollection = None\<rparr>,
      \<lparr>coll_name = ''b'', coll_friendlyName = ''B'', coll_parentCollection = Some ''a''\<rparr>,
      \<lparr>coll_name = ''a'', coll_friendlyName = ''A'', coll_parentCollection = Some ''root''\<rparr>]
   = Inl (UnboundLocalError ''child'')"
  by code_simp

subsection \<open>An unresolved start collection\<close>

text \<open>
  Claim C7. Both creators fail with the \<^verbatim>\<open>ValueError\<close> of the start collection exactly
  when the trimmed start value equals neither the id nor the friendly name of any entry
  of the directory. The message then names the trimmed value and the collection-admin
  requirement (\<^const>\<open>start_not_found\<close>), and no request has been issued.
\<close>

theorem start_collection_not_found:
  "((\<exists>sent msg. create_collectiions put endpoint_url listing start names api_version
        = (sent, Inl (ValueError msg)))
      = (\<forall>(k, v) \<in> set (get_final_collection_names listing).
           strip start \<noteq> k \<and> strip start \<noteq> friendlyName v))
   \<and> ((\<exists>sent msg. create_collectiions2 put endpoint_url listing start names api_version
        = (sent, Inl (ValueError msg)))
      = (\<forall>(k, v) \<in> set (get_final_collection_names listing).
           strip start \<noteq> k \<and> strip start \<noteq> friendlyName v))
   \<and> ((\<forall>(k, v) \<in> set (get_final_collection_names listing).
           strip start \<noteq> k \<and> strip start \<noteq> friendlyName v) \<longrightarrow>
        create_collectiions put endpoint_url listing start names api_version
          = ([], Inl (ValueError (start_not_found (strip start))))
        \<and> create_collectiions2 put endpoint_url listing start names api_version
          = ([], Inl (ValueError (start_not_found (strip start)))))"
proof (cases "\<forall>(k, v) \<in> set (get_final_collection_names listing).
           strip start \<noteq> k \<and> strip start \<noteq> friendlyName v")
  case True
  from resolve_start_not_found(2) [OF True]
  have "create_collectiions put endpoint_url listing start names api_version
          = ([], Inl (ValueError (start_not_found (strip start))))"
    and "create_collectiions2 put endpoint_url listing start names api_version
          = ([], Inl (ValueError (start_not_found (strip start))))"
    by (simp_all add: create_collectiions_def create_collectiions2_def)
  with True show ?thesis by simp
next
  case False
  with resolve_start_not_found(1) [of "get_final_collection_names listing" start]
  have "\<nexists>msg. resolve_start (get_final_collection_names listing) start = Inl (ValueError msg)"
    by simp
  moreover from resolve_start_not_found(3) [of "get_final_collection_names listing" start]
  have "\<And>e. resolve_start (get_final_collection_names listing) start = Inl e
      \<Longrightarrow> \<exists>msg. e = ValueError msg"
    by simp
  ultimately obtain s where s: "resolve_start (get_final_collection_names listing) start = Inr s"
    by (cases "resolve_start (get_final_collection_names listing) start") auto
  have "\<nexists>sent msg. create_collectiions put endpoint_url listing start names api_version
        = (sent, Inl (ValueError msg))"
    using s create_paths_error [of put _ _ "[]"]
    by (cases names) (auto simp: create_collectiions_def)
  moreover have "\<nexists>sent msg. create_collectiions2 put endpoint_url listing start names api_version
        = (sent, Inl (ValueError msg))"
    using s create_paths_error [of put _ _ "[]"]
    by (cases names) (auto simp: create_collectiions2_def)
  ultimately show ?thesis using False by simp
qed

theorem start_collection_not_found_witness:
  "create_collectiions (\<lambda>n r. Response 200 []) ''https://acct.purview.azure.com/''
      [\<lparr>coll_name = ''root'', coll_friendlyName = ''Root'', coll_parentCollection = None\<rparr>]
      '' finance '' (Some [''A'']) ''2019-11-01-preview''
     = ([], Inl (ValueError (start_not_found ''finance'')))
   \<and> create_collectiions2 (\<lambda>n r. Response 200 []) ''https://acct.purview.azure.com/''
      [\<lparr>coll_name = ''root'', coll_friendlyName = ''Root'', coll_parentCollection = None\<rparr>]
      '' finance '' (Some [''A'']) ''2019-11-01-preview''
     = ([], Inl (ValueError (start_not_found ''finance'')))"
proof -
  have s: "strip '' finance '' = ''finance''"
    by (simp add: strip_def isspace_def)
  have h: "\<forall>(k, v) \<in> set (get_final_collection_names
      [\<lparr>coll_name = ''root'', coll_friendlyName = ''Root'', coll_parentCollection = None\<rparr>]).
      strip '' finance '' \<noteq> k \<and> strip '' finance '' \<noteq> friendlyName v"
    by (simp add: s get_final_collection_names_def enumerate_from_def)
  from start_collection_not_found [of "\<lambda>n r. Response 200 []" "''https://acct.purview.azure.com/''"
      "[\<lparr>coll_name = ''root'', coll_friendlyName = ''Root'', coll_parentCollection = None\<rparr>]"
      "'' finance ''" "Some [''A'']" "''2019-11-01-preview''"] h
  show ?thesis by (simp add: s)
qed

subsection \<open>Two new segments with the same identifier\<close>




subsection \<open>A request that is refused\<close>

text \<open>
  Claim C9, evaluated where it fails. The response of a PUT is printed and its status is
  never inspected: when the service answers 403 to the request for \<^verbatim>\<open>A\<close>, both creators
  go on to send the request for \<^verbatim>\<open>B\<close> and return normally.
\<close>

theorem failed_response_does_not_stop:
  "create_collectiions (\<lambda>n r. Response 403 ''Forbidden'') ''https://acct/''
       [\<lparr>coll_name = ''root'', coll_friendlyName = ''Root'', coll_parentCollection = None\<rparr>]
       ''root'' (Some [''A/B'']) ''v1''
     = ([put_request ''https://acct/'' ''v1'' ''A'' ''root'' ''A'',
         put_request ''https://acct/'' ''v1'' ''B'' ''A'' ''B''], Inr ())
   \<and> create_collectiions2 (\<lambda>n r. Response 403 ''Forbidden'') ''https://acct/''
       [\<lparr>coll_name = ''root'', coll_friendlyName = ''Root'', coll_parentCollection = None\<rparr>]
       ''root'' (Some [''A/B'']) ''v1''
     = ([put_request ''https://acct/'' ''v1'' ''A'' ''root'' ''A'',
         put_request ''https://acct/'' ''v1'' ''B'' ''A'' ''B''], Inr ())"
  by code_simp

text \<open>Only an exception raised by the transport itself ends the run.\<close>

lemma transport_exception_stops:
  "create_collectiions (\<lambda>n r. Raises ''ConnectionError'') ''https://acct/''
       [\<lparr>coll_name = ''root'', coll_friendlyName = ''Root'', coll_parentCollection = None\<rparr>]
       ''root'' (Some [''A/B'']) ''v1''
     = ([put_request ''https://acct/'' ''v1'' ''A'' ''root'' ''A''],
        Inl (RequestException ''ConnectionError''))"
  by code_simp

subsection \<open>The hierarchy of an empty directory\<close>

text \<open>
  Claim C10. When the listing is empty, the loop of \<^verbatim>\<open>_hierarchy\<close> never binds
  \<^verbatim>\<open>root\<close>, and the read of \<^verbatim>\<open>root\<close> by the rendering raises \<^verbatim>\<open>UnboundLocalError\<close>: no
  empty forest is printed. The same holds when the method is reached through
  \<^verbatim>\<open>list_collections_new\<close> with \<^verbatim>\<open>hierarchy\<close> set, and the empty listing is the only
  one on which \<^verbatim>\<open>root\<close> is unbound.
\<close>

theorem hierarchy_empty_directory:
  "hierarchy [] = Inl (UnboundLocalError ''root'')
   \<and> list_collections_new [] True only_names = Inl (UnboundLocalError ''root'')
   \<and> (hierarchy listing = Inl (UnboundLocalError ''root'')) = (listing = [])"
proof -
  have e: "hierarchy [] = Inl (UnboundLocalError ''root'')"
    by (simp add: hierarchy_def get_final_collection_names_def enumerate_from_Nil build_Nil)
  have "hierarchy listing = Inl (UnboundLocalError ''root'') \<Longrightarrow> listing = []"
    using hierarchy_raises [of listing "UnboundLocalError ''root''"] by auto
  with e show ?thesis by (auto simp: list_collections_new_def)
qed

end
